theory Spec2Isabelle
  imports Complex_Main "HOL-Library.Word"
begin

unbundle bit_operations_syntax

section \<open>Machine types of \<^verbatim>\<open>math/myriotamath.h\<close>\<close>

text \<open>
  \<^verbatim>\<open>unsigned int\<close> is a 32-bit word, \<^verbatim>\<open>uint64_t\<close> and \<^verbatim>\<open>int64_t\<close> are 64-bit
  words, \<^verbatim>\<open>int32_t\<close> and \<^verbatim>\<open>int16_t\<close> are 32-bit and 16-bit words. A word carries
  no sign: the signed types are read with \<open>sint\<close> and compared with \<open>\<le>s\<close> and \<open><s\<close>,
  the unsigned ones with \<open>unat\<close>, \<open>\<le>\<close> and \<open><\<close>. Arithmetic on words wraps around, as
  unsigned arithmetic does in C and as the conversions between the 64-bit types do on
  the two's complement targets of the library.
\<close>

type_synonym uint = "32 word"
type_synonym uint64_t = "64 word"
type_synonym int64_t = "64 word"
type_synonym int32_t = "32 word"
type_synonym int16_t = "16 word"

section \<open>Fixed-point clipping\<close>

text \<open>
  \<^verbatim>\<open>
  static inline int16_t myriota_clip_16(const int32_t x) {
    if (x > (1 << 15) - 1) return (1 << 15) - 1;
    if (x < -(1 << 15)) return -(1 << 15);
    return x;
  }
  \<close>
  The comparisons are signed comparisons of \<^verbatim>\<open>int\<close>; the last \<^verbatim>\<open>return\<close> narrows the
  32-bit value to 16 bits.
\<close>

definition myriota_clip_16 :: "int32_t \<Rightarrow> int16_t" where
  "myriota_clip_16 x =
     (if (push_bit 15 1 - 1 :: int32_t) <s x then scast (push_bit 15 1 - 1 :: int32_t)
      else if x <s - (push_bit 15 1 :: int32_t) then scast (- (push_bit 15 1) :: int32_t)
      else scast x)"

section \<open>Power-of-two sizing\<close>

text \<open>
  Modelled from the spec: \<^verbatim>\<open>myriota_greater_power_of_two\<close> is only declared in
  \<^verbatim>\<open>math/myriotamath.h\<close>; its body is missing. The header documents it as "Returns smallest power of 2 greater than or equal to
  this integer", and the specification lists "integer-power-of-two sizing" among the
  primitives it relies on. The model doubles \<open>p\<close>, starting from \<open>1\<close>, until it reaches
  \<open>x\<close>. The result type is \<^verbatim>\<open>unsigned int\<close>: for \<open>x\<close> above \<open>2 ^ 31\<close> no 32-bit power of
  two is large enough and the documentation promises nothing, which the model records
  as \<open>None\<close>.
\<close>

function power_of_two_from :: "nat \<Rightarrow> nat \<Rightarrow> nat" where
  "power_of_two_from p x = (if 0 < p \<and> p < x then power_of_two_from (2 * p) x else p)"
  by pat_completeness auto
termination
  by (relation "measure (\<lambda>(p, x). x - p)") auto

declare power_of_two_from.simps [simp del]

definition myriota_greater_power_of_two :: "uint \<Rightarrow> uint option" where
  "myriota_greater_power_of_two x =
     (let p = power_of_two_from 1 (unat x)
      in if p < 2 ^ 32 then Some (of_nat p) else None)"

section \<open>The circular buffer\<close>

text \<open>
  \<^verbatim>\<open>
  template <typename T> class CircularBuffer {
   public:
    const unsigned int size;
    const unsigned int mask;
    ...
   protected:
    std::vector<T> buf;
    uint64_t N;
  };
  \<close>
  The fields keep their names, with the suffix \<open>_cb\<close> because \<open>size\<close> and \<open>mask\<close> are
  constants of HOL.
\<close>

record 'a CircularBuffer =
  size_cb :: uint
  mask_cb :: uint
  buf_cb :: "'a list"
  N_cb :: uint64_t

text \<open>
  The two ways an operation of the buffer can fail: \<open>out_of_range\<close> is the
  \<^verbatim>\<open>std::out_of_range\<close> exception that \<^verbatim>\<open>set\<close> throws; \<open>vector_subscript\<close> stands for
  \<^verbatim>\<open>buf[i]\<close> with \<open>i\<close> at or beyond the length of the vector, which C++ leaves undefined.
\<close>

datatype error = out_of_range | vector_subscript

text \<open>
  \<^verbatim>\<open>
  CircularBuffer(unsigned int size, T init)
      : size(myriota_greater_power_of_two(size + 1)),
        mask(this->size - 1),
        buf(this->size, init),
        N(0){};
  \<close>
  \<^verbatim>\<open>size + 1\<close> is unsigned arithmetic and wraps around.
\<close>

definition CircularBuffer :: "uint \<Rightarrow> 'a \<Rightarrow> 'a CircularBuffer option" where
  "CircularBuffer size0 init =
     (case myriota_greater_power_of_two (size0 + 1) of
        None \<Rightarrow> None
      | Some s \<Rightarrow>
          Some \<lparr>size_cb = s, mask_cb = s - 1, buf_cb = replicate (unat s) init, N_cb = 0\<rparr>)"

text \<open>
  \<^verbatim>\<open>
  inline void push(const T &elem) {
    buf[N & mask] = elem;
    N++;
  }
  \<close>
  In \<^verbatim>\<open>N & mask\<close> the 32-bit \<^verbatim>\<open>mask\<close> is converted to 64 bits without sign.
  Every operation returns its outcome together with the buffer it leaves behind.
\<close>

definition push :: "'a CircularBuffer \<Rightarrow> 'a \<Rightarrow> (error + unit) \<times> 'a CircularBuffer" where
  "push b elem =
     (let i = unat (N_cb b AND ucast (mask_cb b))
      in if i < length (buf_cb b)
         then (Inr (), b\<lparr>buf_cb := (buf_cb b)[i := elem], N_cb := N_cb b + 1\<rparr>)
         else (Inl vector_subscript, b))"

text \<open>\<^verbatim>\<open>inline uint64_t pushed() const { return N; }\<close>\<close>

definition pushed :: "'a CircularBuffer \<Rightarrow> uint64_t" where
  "pushed b = N_cb b"

text \<open>
  \<^verbatim>\<open>
  inline int64_t maxn() const { return N - 1; }
  inline int64_t minn() const { return N - size; }
  \<close>
  Both differences are computed in \<^verbatim>\<open>uint64_t\<close> (\<^verbatim>\<open>size\<close> is widened without sign) and
  the result is then read as \<^verbatim>\<open>int64_t\<close>.
\<close>

definition maxn :: "'a CircularBuffer \<Rightarrow> int64_t" where
  "maxn b = N_cb b - 1"

definition minn :: "'a CircularBuffer \<Rightarrow> int64_t" where
  "minn b = N_cb b - ucast (size_cb b)"

text \<open>
  \<^verbatim>\<open>inline const T &operator()(const int64_t n) const { return buf[n & mask]; }\<close>

  The operator is named \<open>read\<close> here. In \<^verbatim>\<open>n & mask\<close> the unsigned \<^verbatim>\<open>mask\<close> is converted
  to \<^verbatim>\<open>int64_t\<close>, which keeps its value; the result is the subscript.
\<close>

definition read :: "'a CircularBuffer \<Rightarrow> int64_t \<Rightarrow> error + 'a" where
  "read b n =
     (let i = unat (n AND ucast (mask_cb b))
      in if i < length (buf_cb b) then Inr (buf_cb b ! i) else Inl vector_subscript)"

text \<open>
  \<^verbatim>\<open>
  void set(const int64_t n, const T &v) {
    if (n >= minn() && n <= maxn())
      buf[n & mask] = v;
    else
      throw std::out_of_range("circluar buffer set " + ...);
  }
  \<close>
  The comparisons are between \<^verbatim>\<open>int64_t\<close> values, hence signed. The name has the suffix
  \<open>_cb\<close> because \<open>set\<close> is a constant of HOL.
\<close>

definition set_cb :: "'a CircularBuffer \<Rightarrow> int64_t \<Rightarrow> 'a \<Rightarrow> (error + unit) \<times> 'a CircularBuffer" where
  "set_cb b n v =
     (if minn b \<le>s n \<and> n \<le>s maxn b
      then (let i = unat (n AND ucast (mask_cb b))
            in if i < length (buf_cb b)
               then (Inr (), b\<lparr>buf_cb := (buf_cb b)[i := v]\<rparr>)
               else (Inl vector_subscript, b))
      else (Inl out_of_range, b))"

text \<open>
  The buffers a program can hold: what the constructor returns, and what \<^verbatim>\<open>push\<close> and
  \<^verbatim>\<open>set\<close> make of such a buffer.
\<close>

inductive_set constructed :: "'a CircularBuffer set" where
  new: "CircularBuffer size0 init = Some b \<Longrightarrow> b \<in> constructed"
| pushed: "b \<in> constructed \<Longrightarrow> snd (push b elem) \<in> constructed"
| written: "b \<in> constructed \<Longrightarrow> snd (set_cb b n v) \<in> constructed"


section \<open>Vocabulary of the properties\<close>

text \<open>What "the smallest power of two greater than or equal to \<open>s\<close>" means.\<close>

definition is_power_of_two :: "nat \<Rightarrow> bool" where
  "is_power_of_two c \<longleftrightarrow> (\<exists>k. c = 2 ^ k)"

definition smallest_power_of_two_geq :: "nat \<Rightarrow> nat \<Rightarrow> bool" where
  "smallest_power_of_two_geq c s \<longleftrightarrow>
     is_power_of_two c \<and> s \<le> c \<and> (\<forall>d. is_power_of_two d \<and> s \<le> d \<longrightarrow> c \<le> d)"

text \<open>
  The shape every buffer keeps: the size is a power of two that fits 32 bits, the mask is
  the size minus one, and the vector has exactly \<open>size\<close> elements.
\<close>

definition well_formed :: "'a CircularBuffer \<Rightarrow> bool" where
  "well_formed b \<longleftrightarrow>
     (\<exists>k<32. size_cb b = 2 ^ k) \<and> mask_cb b = size_cb b - 1 \<and>
     length (buf_cb b) = unat (size_cb b)"

section \<open>Properties\<close>

subsection \<open>Clipping\<close>

lemma narrow_16:
  assumes "- 32768 \<le> sint (x::32 word)" "sint x \<le> 32767"
  shows "sint (scast x :: 16 word) = sint x"
proof -
  have "sint (scast x :: 16 word) = signed_take_bit 15 (sint x)"
    unfolding scast_eq sint_sbintrunc' by simp
  also have "\<dots> = sint x"
    using assms by (intro signed_take_bit_int_eq_self) simp_all
  finally show ?thesis .
qed

text \<open>
  Claim C7. For every 32-bit signed \<open>x\<close>, \<^verbatim>\<open>myriota_clip_16\<close> returns \<open>x\<close> itself when
  \<open>x\<close> lies in \<open>[-32768, 32767]\<close>, \<open>32767\<close> when \<open>x\<close> is above the interval and \<open>-32768\<close>
  when it is below (it saturates, it does not wrap), so the 16-bit result is always in
  \<open>[-2^15, 2^15 - 1]\<close>.
\<close>

theorem myriota_clip_16_saturates:
  "sint (myriota_clip_16 x) =
     (if 32767 < sint x then 32767 else if sint x < - 32768 then - 32768 else sint x) \<and>
   - (2 ^ 15) \<le> sint (myriota_clip_16 x) \<and> sint (myriota_clip_16 x) \<le> 2 ^ 15 - 1"
proof -
  have "sint (myriota_clip_16 x) =
     (if 32767 < sint x then 32767 else if sint x < - 32768 then - 32768 else sint x)"
    unfolding myriota_clip_16_def word_sless_alt by (simp add: narrow_16)
  then show ?thesis by simp
qed

subsection \<open>The power of two\<close>

lemma power_of_two_from_exp:
  "p = 2 ^ j \<Longrightarrow>
     \<exists>k. power_of_two_from p x = 2 ^ k \<and> j \<le> k \<and> (x \<le> p \<longrightarrow> k = j) \<and>
         (p < x \<longrightarrow> x \<le> 2 ^ k \<and> 2 ^ k < 2 * x)"
proof (induction p x arbitrary: j rule: power_of_two_from.induct)
  case (1 p x)
  show ?case
  proof (cases "p < x")
    case False
    then have "power_of_two_from p x = p" by (simp add: power_of_two_from.simps [of p x])
    with False 1(2) show ?thesis by auto
  next
    case True
    have pos: "0 < p" using 1(2) by simp
    have "2 * p = 2 ^ Suc j" using 1(2) by simp
    from 1(1) [OF _ this] pos True
    obtain k where k: "power_of_two_from (2 * p) x = 2 ^ k" "Suc j \<le> k"
      "x \<le> 2 * p \<longrightarrow> k = Suc j" "2 * p < x \<longrightarrow> x \<le> 2 ^ k \<and> 2 ^ k < 2 * x"
      by blast
    have eq: "power_of_two_from p x = power_of_two_from (2 * p) x"
      using pos True by (simp add: power_of_two_from.simps [of p x])
    show ?thesis
    proof (cases "x \<le> 2 * p")
      case le: True
      with k 1(2) True eq show ?thesis
        by (intro exI [of _ k]) auto
    next
      case False
      with k True eq show ?thesis
        by (intro exI [of _ k]) auto
    qed
  qed
qed

lemma exp_smallest:
  assumes "s \<le> 2 ^ k" and "k = 0 \<or> 2 ^ k < 2 * s"
  shows "smallest_power_of_two_geq (2 ^ k) s"
  unfolding smallest_power_of_two_geq_def is_power_of_two_def
proof (intro conjI allI impI)
  show "\<exists>j. (2::nat) ^ k = 2 ^ j" by blast
  show "s \<le> 2 ^ k" by fact
next
  fix d assume "(\<exists>m. d = 2 ^ m) \<and> s \<le> d"
  then obtain m where d: "d = 2 ^ m" and sd: "s \<le> 2 ^ m" by blast
  show "2 ^ k \<le> d"
  proof (rule ccontr)
    assume "\<not> 2 ^ k \<le> d"
    then have "(2::nat) ^ m < 2 ^ k" using d by simp
    then have mk: "m < k" by simp
    then have "Suc m \<le> k" by simp
    then have "(2::nat) ^ Suc m \<le> 2 ^ k" by (rule power_increasing) simp
    moreover from mk assms(2) have "2 ^ k < 2 * s" by auto
    ultimately show False using sd by simp
  qed
qed

lemma greater_power_of_two_smallest:
  assumes "myriota_greater_power_of_two x = Some c"
  shows "\<exists>k<32. c = 2 ^ k \<and> unat c = 2 ^ k \<and> smallest_power_of_two_geq (2 ^ k) (unat x)"
proof -
  obtain k where k: "power_of_two_from 1 (unat x) = 2 ^ k"
    "unat x \<le> 1 \<longrightarrow> k = 0" "1 < unat x \<longrightarrow> unat x \<le> 2 ^ k \<and> 2 ^ k < 2 * unat x"
    using power_of_two_from_exp [of 1 0 "unat x"] by auto
  from assms k(1) have lt: "(2::nat) ^ k < 2 ^ 32" and c: "c = of_nat (2 ^ k)"
    by (auto simp: myriota_greater_power_of_two_def Let_def split: if_splits)
  have k32: "k < 32"
  proof (rule ccontr)
    assume "\<not> k < 32"
    then have "32 \<le> k" by simp
    then have "(2::nat) ^ 32 \<le> 2 ^ k" by (rule power_increasing) simp
    with lt show False by simp
  qed
  have c': "c = 2 ^ k" using c by simp
  have u: "unat c = 2 ^ k"
  proof -
    have "unat c = 2 ^ k mod 2 ^ LENGTH(32)" unfolding c by (rule unat_of_nat)
    also have "\<dots> = 2 ^ k" using lt by simp
    finally show ?thesis .
  qed
  have "smallest_power_of_two_geq (2 ^ k) (unat x)"
    using k(2,3) by (intro exp_smallest) (cases "unat x \<le> 1"; auto)+
  with k32 c' u show ?thesis by blast
qed

lemma greater_power_of_two_defined:
  assumes "unat x \<le> 2 ^ 31"
  shows "\<exists>c. myriota_greater_power_of_two x = Some c"
proof -
  obtain k where k: "power_of_two_from 1 (unat x) = 2 ^ k"
    "unat x \<le> 1 \<longrightarrow> k = 0" "1 < unat x \<longrightarrow> unat x \<le> 2 ^ k \<and> 2 ^ k < 2 * unat x"
    using power_of_two_from_exp [of 1 0 "unat x"] by auto
  have "(2::nat) ^ k < 2 ^ 32"
  proof (cases "unat x \<le> 1")
    case True with k(2) show ?thesis by simp
  next
    case False
    with k(3) have "2 ^ k < 2 * unat x" by simp
    also have "\<dots> \<le> 2 * 2 ^ 31" using assms by simp
    finally show ?thesis by simp
  qed
  with k(1) show ?thesis by (simp add: myriota_greater_power_of_two_def)
qed

subsection \<open>Subscripts under the mask\<close>

lemma and_mask_slot:
  fixes n :: "64 word"
  assumes "k < 32"
  shows "unat (n AND ucast (2 ^ k - 1 :: 32 word)) = nat (sint n mod 2 ^ k)"
proof -
  have m32: "(2 ^ k - 1 :: 32 word) = mask k"
    by (simp add: mask_eq_decr_exp)
  have m64: "ucast (mask k :: 32 word) = (mask k :: 64 word)"
    using assms by (simp add: ucast_mask_eq min_def)
  have tb: "n AND mask k = take_bit k n"
    by (simp add: take_bit_eq_mask)
  have u: "uint (take_bit k n) = take_bit k (uint n)"
    by (simp add: unsigned_take_bit_eq)
  have s: "take_bit k (sint n) = take_bit k (uint n)"
    unfolding sint_uint using assms by (intro take_bit_signed_take_bit) simp
  have "unat (n AND ucast (2 ^ k - 1 :: 32 word)) = nat (uint (take_bit k n))"
    by (simp add: m32 m64 tb)
  also have "\<dots> = nat (take_bit k (sint n))"
    by (simp add: u s)
  finally show ?thesis
    by (simp add: take_bit_int_def)
qed

lemma slot_less:
  fixes n :: "64 word"
  assumes "k < 32"
  shows "unat (n AND ucast (2 ^ k - 1 :: 32 word)) < 2 ^ k"
proof -
  have "sint n mod 2 ^ k < 2 ^ k" by simp
  moreover have "0 \<le> sint n mod 2 ^ k" by simp
  ultimately have "nat (sint n mod 2 ^ k) < nat (2 ^ k)" by linarith
  then show ?thesis by (simp add: and_mask_slot [OF assms])
qed

lemma unat_exp_32:
  assumes "k < 32"
  shows "unat (2 ^ k :: 32 word) = 2 ^ k"
proof -
  from assms have lt: "(2::nat) ^ k < 2 ^ 32"
    by (intro power_strict_increasing) simp_all
  have "unat (of_nat (2 ^ k) :: 32 word) = 2 ^ k mod 2 ^ LENGTH(32)"
    by (rule unat_of_nat)
  also have "\<dots> = 2 ^ k" using lt by simp
  finally show ?thesis by simp
qed

lemma well_formed_slot:
  fixes n :: "64 word"
  assumes "well_formed b"
  shows "unat (n AND ucast (mask_cb b)) < length (buf_cb b)"
    and "unat (n AND ucast (mask_cb b)) = nat (sint n mod int (unat (size_cb b)))"
proof -
  from assms obtain k where k: "k < 32" "size_cb b = 2 ^ k"
    and m: "mask_cb b = size_cb b - 1" and l: "length (buf_cb b) = unat (size_cb b)"
    unfolding well_formed_def by blast
  have u: "unat (size_cb b) = 2 ^ k"
    using k by (simp add: unat_exp_32)
  show "unat (n AND ucast (mask_cb b)) < length (buf_cb b)"
    using slot_less [OF k(1), of n] by (simp add: m l k(2) u [unfolded k(2)])
  show "unat (n AND ucast (mask_cb b)) = nat (sint n mod int (unat (size_cb b)))"
    using and_mask_slot [OF k(1), of n] by (simp add: m k(2) u [unfolded k(2)])
qed

subsection \<open>Every buffer is well formed\<close>

lemma well_formed_new:
  assumes "CircularBuffer size0 init = Some b"
  shows "well_formed b"
proof -
  from assms obtain s where s: "myriota_greater_power_of_two (size0 + 1) = Some s"
    and b: "b = \<lparr>size_cb = s, mask_cb = s - 1, buf_cb = replicate (unat s) init, N_cb = 0\<rparr>"
    by (auto simp: CircularBuffer_def split: option.splits)
  from greater_power_of_two_smallest [OF s] obtain k where "k < 32" "s = 2 ^ k" by blast
  then show ?thesis unfolding well_formed_def b by auto
qed

lemma well_formed_push: "well_formed b \<Longrightarrow> well_formed (snd (push b elem))"
  by (auto simp: well_formed_def push_def Let_def)

lemma well_formed_set_cb: "well_formed b \<Longrightarrow> well_formed (snd (set_cb b n v))"
  by (auto simp: well_formed_def set_cb_def Let_def)

lemma constructed_well_formed: "b \<in> constructed \<Longrightarrow> well_formed b"
  by (induction rule: constructed.induct)
    (simp_all add: well_formed_new well_formed_push well_formed_set_cb)


subsection \<open>Small buffers to evaluate on\<close>

lemma replicate_4: "replicate 4 x = [x, x, x, x]"
  by (simp add: eval_nat_numeral)

lemma replicate_8: "replicate 8 x = [x, x, x, x, x, x, x, x]"
  by (simp add: eval_nat_numeral)

lemma CircularBuffer_3:
  "CircularBuffer 3 (0::int) =
     Some \<lparr>size_cb = 4, mask_cb = 3, buf_cb = [0, 0, 0, 0], N_cb = 0\<rparr>"
  by (simp add: CircularBuffer_def myriota_greater_power_of_two_def power_of_two_from.simps
      replicate_4)

lemma CircularBuffer_4:
  "CircularBuffer 4 (0::int) =
     Some \<lparr>size_cb = 8, mask_cb = 7, buf_cb = [0, 0, 0, 0, 0, 0, 0, 0], N_cb = 0\<rparr>"
  by (simp add: CircularBuffer_def myriota_greater_power_of_two_def power_of_two_from.simps
      replicate_8)

lemma constructed_fresh:
  "\<lparr>size_cb = 4, mask_cb = 3, buf_cb = [0, 0, 0, 0 :: int], N_cb = 0\<rparr> \<in> constructed"
  using CircularBuffer_3 by (rule constructed.new)

lemma constructed_full:
  "\<lparr>size_cb = 4, mask_cb = 3, buf_cb = [5, 6, 7, 8 :: int], N_cb = 4\<rparr> \<in> constructed"
proof -
  let ?fresh = "\<lparr>size_cb = 4, mask_cb = 3, buf_cb = [0, 0, 0, 0 :: int], N_cb = 0\<rparr>"
  have "snd (push (snd (push (snd (push (snd (push ?fresh 5)) 6)) 7)) 8) \<in> constructed"
    by (intro constructed.pushed constructed_fresh)
  moreover have "snd (push (snd (push (snd (push (snd (push ?fresh 5)) 6)) 7)) 8) =
      \<lparr>size_cb = 4, mask_cb = 3, buf_cb = [5, 6, 7, 8 :: int], N_cb = 4\<rparr>"
    by (simp add: push_def)
  ultimately show ?thesis by simp
qed

subsection \<open>Signed values of 64-bit words\<close>



subsection \<open>The unchecked read\<close>

text \<open>
  Claim C10. For every constructed buffer the capacity is a power of two and the stored
  mask is the capacity minus one, so the unchecked read is total: for every 64-bit index
  \<open>n\<close>, negative or outside the window included, the subscript \<open>n mod capacity\<close> is within
  the vector and the read returns the element stored there.
\<close>

theorem read_total:
  fixes n :: int64_t
  assumes "b \<in> constructed"
  shows "is_power_of_two (unat (size_cb b)) \<and> mask_cb b = size_cb b - 1 \<and>
         length (buf_cb b) = unat (size_cb b) \<and>
         nat (sint n mod int (unat (size_cb b))) < length (buf_cb b) \<and>
         read b n = Inr (buf_cb b ! nat (sint n mod int (unat (size_cb b))))"
proof -
  have wf: "well_formed b" using assms by (rule constructed_well_formed)
  then obtain k where k: "k < 32" "size_cb b = 2 ^ k"
    unfolding well_formed_def by blast
  have "is_power_of_two (unat (size_cb b))"
    unfolding is_power_of_two_def k(2) using unat_exp_32 [OF k(1)] by blast
  moreover have "mask_cb b = size_cb b - 1" "length (buf_cb b) = unat (size_cb b)"
    using wf unfolding well_formed_def by blast+
  moreover have "nat (sint n mod int (unat (size_cb b))) < length (buf_cb b)"
    using well_formed_slot [OF wf, of n] by simp
  moreover have "read b n = Inr (buf_cb b ! nat (sint n mod int (unat (size_cb b))))"
    using well_formed_slot [OF wf, of n] by (simp add: read_def Let_def)
  ultimately show ?thesis by blast
qed

text \<open>
  On a buffer of capacity 4 that holds 5, 6, 7, 8 after four pushes: index \<open>-1\<close> is below
  the window \<open>[0, 3]\<close> and reads slot 3, index \<open>9\<close> is above it and reads slot 1.
\<close>

theorem read_total_witness:
  "\<lparr>size_cb = 4, mask_cb = 3, buf_cb = [5, 6, 7, 8 :: int], N_cb = 4\<rparr> \<in> constructed \<and>
   read \<lparr>size_cb = 4, mask_cb = 3, buf_cb = [5, 6, 7, 8 :: int], N_cb = 4\<rparr> (- 1) = Inr 8 \<and>
   read \<lparr>size_cb = 4, mask_cb = 3, buf_cb = [5, 6, 7, 8 :: int], N_cb = 4\<rparr> 9 = Inr 6"
  using read_total [OF constructed_full, of "- 1"] read_total [OF constructed_full, of 9]
    constructed_full
  by simp

subsection \<open>The checked write\<close>

text \<open>
  Claim C6. For every buffer and every index \<open>n\<close>, \<^verbatim>\<open>set(n, v)\<close> fails with the out-of-range
  error if and only if \<open>n\<close> is outside \<open>[minn(), maxn()]\<close>; when it fails the buffer is
  unchanged; when \<open>n\<close> is inside the window the write succeeds and a read of index \<open>n\<close>
  that follows returns \<open>v\<close>.
\<close>

theorem set_cb_checked:
  assumes "b \<in> constructed"
  shows "(fst (set_cb b n v) = Inl out_of_range \<longleftrightarrow>
            \<not> (sint (minn b) \<le> sint n \<and> sint n \<le> sint (maxn b))) \<and>
         (fst (set_cb b n v) = Inl out_of_range \<longrightarrow> snd (set_cb b n v) = b) \<and>
         (sint (minn b) \<le> sint n \<and> sint n \<le> sint (maxn b) \<longrightarrow>
            fst (set_cb b n v) = Inr () \<and> read (snd (set_cb b n v)) n = Inr v)"
proof -
  have wf: "well_formed b" using assms by (rule constructed_well_formed)
  have i: "unat (n AND ucast (mask_cb b)) < length (buf_cb b)"
    using well_formed_slot(1) [OF wf] .
  show ?thesis
    using i by (simp add: set_cb_def read_def Let_def word_sle_eq)
qed

text \<open>
  On the buffer of capacity 4 after four pushes the window is \<open>[0, 3]\<close>: writing index 2
  succeeds and is read back, writing index 4 is refused and leaves the buffer as it was.
\<close>

theorem set_cb_checked_witness:
  "\<lparr>size_cb = 4, mask_cb = 3, buf_cb = [5, 6, 7, 8 :: int], N_cb = 4\<rparr> \<in> constructed \<and>
   sint (minn \<lparr>size_cb = 4, mask_cb = 3, buf_cb = [5, 6, 7, 8 :: int], N_cb = 4\<rparr>) = 0 \<and>
   sint (maxn \<lparr>size_cb = 4, mask_cb = 3, buf_cb = [5, 6, 7, 8 :: int], N_cb = 4\<rparr>) = 3 \<and>
   set_cb \<lparr>size_cb = 4, mask_cb = 3, buf_cb = [5, 6, 7, 8 :: int], N_cb = 4\<rparr> 2 9 =
     (Inr (), \<lparr>size_cb = 4, mask_cb = 3, buf_cb = [5, 6, 9, 8], N_cb = 4\<rparr>) \<and>
   read \<lparr>size_cb = 4, mask_cb = 3, buf_cb = [5, 6, 9, 8 :: int], N_cb = 4\<rparr> 2 = Inr 9 \<and>
   set_cb \<lparr>size_cb = 4, mask_cb = 3, buf_cb = [5, 6, 7, 8 :: int], N_cb = 4\<rparr> 4 9 =
     (Inl out_of_range, \<lparr>size_cb = 4, mask_cb = 3, buf_cb = [5, 6, 7, 8], N_cb = 4\<rparr>)"
proof -
  let ?full = "\<lparr>size_cb = 4, mask_cb = 3, buf_cb = [5, 6, 7, 8 :: int], N_cb = 4\<rparr>"
  have w: "sint (minn ?full) = 0" "sint (maxn ?full) = 3"
    by (simp_all add: minn_def maxn_def)
  have s: "set_cb ?full 2 9 =
      (Inr (), \<lparr>size_cb = 4, mask_cb = 3, buf_cb = [5, 6, 9, 8], N_cb = 4\<rparr>)"
    by (simp add: set_cb_def minn_def maxn_def word_sle_eq)
  have r: "set_cb ?full 4 9 = (Inl out_of_range, ?full)"
    by (simp add: set_cb_def minn_def maxn_def word_sle_eq)
  from set_cb_checked [OF constructed_full, of 2 9] set_cb_checked [OF constructed_full, of 4 9]
    constructed_full w s r
  show ?thesis by simp
qed

subsection \<open>Push\<close>

text \<open>
  Claim C8. For every buffer and every value \<open>v\<close>, \<^verbatim>\<open>push(v)\<close> succeeds, increases the push
  count \<open>N\<close> by exactly 1, and makes \<open>v\<close> the most recent element: right after the push,
  reading index \<^verbatim>\<open>maxn()\<close> returns \<open>v\<close>. \<open>N\<close> is a \<^verbatim>\<open>uint64_t\<close> and \<^verbatim>\<open>N++\<close> is its increment:
  read as a natural number the count grows by one as long as it is below \<open>2^64 - 1\<close>.
\<close>

theorem push_appends:
  assumes "b \<in> constructed"
  shows "fst (push b v) = Inr () \<and>
         pushed (snd (push b v)) = pushed b + 1 \<and>
         (unat (pushed b) < 2 ^ 64 - 1 \<longrightarrow>
            unat (pushed (snd (push b v))) = unat (pushed b) + 1) \<and>
         read (snd (push b v)) (maxn (snd (push b v))) = Inr v"
proof -
  have wf: "well_formed b" using assms by (rule constructed_well_formed)
  have i: "unat (N_cb b AND ucast (mask_cb b)) < length (buf_cb b)"
    using well_formed_slot(1) [OF wf] .
  have "unat (N_cb b) < 2 ^ 64 - 1 \<Longrightarrow> unat (N_cb b + 1) = unat (N_cb b) + 1"
    by (simp add: unat_word_ariths)
  then show ?thesis
    using i by (simp add: push_def read_def maxn_def pushed_def Let_def)
qed

text \<open>
  Pushing 9 onto the buffer of capacity 4 that holds 5, 6, 7, 8: the count goes from 4 to
  5, slot 0 is overwritten, and index 4, the new \<^verbatim>\<open>maxn()\<close>, reads 9.
\<close>

theorem push_appends_witness:
  "\<lparr>size_cb = 4, mask_cb = 3, buf_cb = [5, 6, 7, 8 :: int], N_cb = 4\<rparr> \<in> constructed \<and>
   unat (pushed \<lparr>size_cb = 4, mask_cb = 3, buf_cb = [5, 6, 7, 8 :: int], N_cb = 4\<rparr>)
     < 2 ^ 64 - 1 \<and>
   push \<lparr>size_cb = 4, mask_cb = 3, buf_cb = [5, 6, 7, 8 :: int], N_cb = 4\<rparr> 9 =
     (Inr (), \<lparr>size_cb = 4, mask_cb = 3, buf_cb = [9, 6, 7, 8], N_cb = 5\<rparr>) \<and>
   maxn \<lparr>size_cb = 4, mask_cb = 3, buf_cb = [9, 6, 7, 8 :: int], N_cb = 5\<rparr> = 4 \<and>
   read \<lparr>size_cb = 4, mask_cb = 3, buf_cb = [9, 6, 7, 8 :: int], N_cb = 5\<rparr> 4 = Inr 9"
proof -
  let ?full = "\<lparr>size_cb = 4, mask_cb = 3, buf_cb = [5, 6, 7, 8 :: int], N_cb = 4\<rparr>"
  have p: "push ?full 9 =
      (Inr (), \<lparr>size_cb = 4, mask_cb = 3, buf_cb = [9, 6, 7, 8], N_cb = 5\<rparr>)"
    by (simp add: push_def)
  have m: "maxn \<lparr>size_cb = 4, mask_cb = 3, buf_cb = [9, 6, 7, 8 :: int], N_cb = 5\<rparr> = 4"
    by (simp add: maxn_def)
  have u: "unat (pushed ?full) < 2 ^ 64 - 1"
    by (simp add: pushed_def)
  from push_appends [OF constructed_full, of 9] constructed_full p m u
  show ?thesis by simp
qed

subsection \<open>The capacity\<close>

text \<open>
  Claim C5, as the specification states it: the capacity of a new buffer is the smallest
  power of two greater than or equal to the requested size \<open>s\<close>. The constructor passes
  \<^verbatim>\<open>size + 1\<close> to \<^verbatim>\<open>myriota_greater_power_of_two\<close>, so this fails whenever \<open>s\<close> is itself a
  power of two: for \<open>s = 4\<close> the capacity is 8, and 4 is a smaller power of two that is not
  below 4.
\<close>

theorem CircularBuffer_capacity_counterexample:
  "map_option size_cb (CircularBuffer 4 (0::int)) = Some 8 \<and>
   \<not> smallest_power_of_two_geq (unat (8 :: uint)) (unat (4 :: uint))"
proof -
  have "map_option size_cb (CircularBuffer 4 (0::int)) = Some 8"
    by (simp add: CircularBuffer_4)
  moreover have "\<not> smallest_power_of_two_geq 8 4"
  proof
    assume "smallest_power_of_two_geq 8 4"
    then have "is_power_of_two 4 \<and> (4::nat) \<le> 4 \<longrightarrow> (8::nat) \<le> 4"
      unfolding smallest_power_of_two_geq_def by blast
    moreover have "is_power_of_two 4"
      unfolding is_power_of_two_def by (rule exI [of _ 2]) simp
    ultimately show False by simp
  qed
  ultimately show ?thesis by simp
qed

text \<open>
  Claim C5, amended. For every requested size \<open>s\<close> below \<open>2^31\<close> the constructor returns a
  buffer whose capacity is the smallest power of two greater than or equal to \<open>s + 1\<close>,
  that is, the smallest power of two strictly greater than \<open>s\<close>; its mask is the capacity
  minus one, its storage holds \<open>capacity\<close> copies of the initial value and nothing has
  been pushed.
\<close>

theorem CircularBuffer_capacity:
  assumes "unat size0 < 2 ^ 31"
  shows "\<exists>b. CircularBuffer size0 init = Some b \<and>
             smallest_power_of_two_geq (unat (size_cb b)) (unat size0 + 1) \<and>
             mask_cb b = size_cb b - 1 \<and>
             buf_cb b = replicate (unat (size_cb b)) init \<and> N_cb b = 0"
proof -
  have u: "unat (size0 + 1) = unat size0 + 1"
    using assms by (simp add: unat_word_ariths)
  with assms have "unat (size0 + 1) \<le> 2 ^ 31" by simp
  then obtain c where c: "myriota_greater_power_of_two (size0 + 1) = Some c"
    using greater_power_of_two_defined by blast
  from greater_power_of_two_smallest [OF c]
  have "smallest_power_of_two_geq (unat c) (unat size0 + 1)"
    unfolding u by auto
  with c show ?thesis by (simp add: CircularBuffer_def)
qed

theorem CircularBuffer_capacity_witness:
  "unat (4 :: uint) < 2 ^ 31 \<and>
   CircularBuffer 4 (0::int) =
     Some \<lparr>size_cb = 8, mask_cb = 7, buf_cb = [0, 0, 0, 0, 0, 0, 0, 0], N_cb = 0\<rparr> \<and>
   smallest_power_of_two_geq 8 5"
proof -
  have h: "unat (4 :: uint) < 2 ^ 31" by simp
  from CircularBuffer_capacity [OF h, of "0::int"] h CircularBuffer_4 show ?thesis by simp
qed

subsection \<open>The window of valid indices\<close>




end
